theory Spec2Isabelle
  imports Complex_Main
begin

section \<open>Values shared by the modules\<close>

text \<open>
  A \<^verbatim>\<open>datetime\<close> of the program is an aware UTC value (every one is taken from
  \<^verbatim>\<open>datetime.now(timezone.utc)\<close> or parsed back from a line written from such a value). It
  is modelled as the instant it denotes, an integer count of microseconds (the resolution
  of \<^verbatim>\<open>datetime\<close>) since the epoch; comparison and subtraction of aware values are
  comparison and subtraction of instants. A \<^verbatim>\<open>timedelta\<close> is a count of microseconds.
\<close>

type_synonym datetime = int
type_synonym timedelta = int

record AddressRecord =
  timestamp :: datetime
  address :: string

definition timedelta_seconds :: "int \<Rightarrow> timedelta" where
  \<comment> \<open>\<^verbatim>\<open>timedelta(seconds=n)\<close> for an integer \<^verbatim>\<open>n\<close>\<close>
  "timedelta_seconds n = n * 1000000"


section \<open>Text as the program handles it\<close>

text \<open>
  A \<^verbatim>\<open>str\<close> is modelled as a \<^typ>\<open>string\<close>: a list of characters, each read as a code point
  below 256. The operations below are the built-in \<^verbatim>\<open>str\<close> methods the storage module and
  the listener call, on such text.
\<close>

definition is_line_boundary :: "char \<Rightarrow> bool" where
  \<comment> \<open>the line boundaries of \<^verbatim>\<open>str.splitlines\<close>: LF, VT, FF, CR, FS, GS, RS, NEL\<close>
  "is_line_boundary c =
     (c \<in> set [CHR 0x0A, CHR 0x0B, CHR 0x0C, CHR 0x0D, CHR 0x1C, CHR 0x1D, CHR 0x1E, CHR 0x85])"

definition isspace :: "char \<Rightarrow> bool" where
  \<comment> \<open>\<^verbatim>\<open>str.isspace\<close> on one character: what \<^verbatim>\<open>str.strip()\<close> removes\<close>
  "isspace c =
     (c \<in> set [CHR 0x09, CHR 0x0A, CHR 0x0B, CHR 0x0C, CHR 0x0D, CHR 0x1C, CHR 0x1D, CHR 0x1E,
               CHR 0x1F, CHR 0x20, CHR 0x85, CHR 0xA0])"

text \<open>
  \<^verbatim>\<open>str.splitlines()\<close>: \<open>cur\<close> is the line read so far. CR LF is one boundary, and a
  boundary at the very end opens no further line.
\<close>

fun splitlines_from :: "string \<Rightarrow> string \<Rightarrow> string list" where
  "splitlines_from cur [] = (if cur = [] then [] else [cur])"
| "splitlines_from cur [c] = (if is_line_boundary c then [cur] else [cur @ [c]])"
| "splitlines_from cur (c # d # cs) =
     (if c = CHR 0x0D \<and> d = CHR 0x0A then cur # splitlines_from [] cs
      else if is_line_boundary c then cur # splitlines_from [] (d # cs)
      else splitlines_from (cur @ [c]) (d # cs))"

definition splitlines :: "string \<Rightarrow> string list" where
  "splitlines text = splitlines_from [] text"

definition strip :: "string \<Rightarrow> string" where
  "strip s = rev (dropWhile isspace (rev (dropWhile isspace s)))"

definition split_maxsplit1 :: "char \<Rightarrow> string \<Rightarrow> string list" where
  \<comment> \<open>\<^verbatim>\<open>s.split(sep, maxsplit=1)\<close> for a separator of one character\<close>
  "split_maxsplit1 sep s =
     (if sep \<in> set s
      then [takeWhile (\<lambda>c. c \<noteq> sep) s, tl (dropWhile (\<lambda>c. c \<noteq> sep) s)]
      else [s])"

fun join :: "string \<Rightarrow> string list \<Rightarrow> string" where
  "join sep [] = []"
| "join sep [x] = x"
| "join sep (x # y # ys) = x @ sep @ join sep (y # ys)"


section \<open>storage/address\_repo.py\<close>

text \<open>
  \<^verbatim>\<open>datetime.fromisoformat\<close> and \<^verbatim>\<open>datetime.isoformat\<close> belong to the standard library,
  not to the repository: the definitions take them as the parameters \<open>fromisoformat\<close>
  (\<open>None\<close> where the library raises \<^verbatim>\<open>ValueError\<close>) and \<open>isoformat\<close>.

  The state of the repository is its file, held as the text that \<^verbatim>\<open>read_text\<close> returns and
  \<^verbatim>\<open>write_text\<close> is given. Reading and writing that text are taken to succeed; the calls
  that \<^verbatim>\<open>backup\<close> makes may fail.
\<close>

definition from_line :: "(string \<Rightarrow> datetime option) \<Rightarrow> string \<Rightarrow> AddressRecord option" where
  "from_line fromisoformat line =
     (case split_maxsplit1 (CHR ''|'') (strip line) of
        [ts_part, address_part] \<Rightarrow>
          (case fromisoformat ts_part of
             None \<Rightarrow> None
           | Some ts \<Rightarrow> Some \<lparr>timestamp = ts, address = strip address_part\<rparr>)
      | _ \<Rightarrow> None)"

definition to_line :: "(datetime \<Rightarrow> string) \<Rightarrow> AddressRecord \<Rightarrow> string" where
  "to_line isoformat r = isoformat (timestamp r) @ ''|'' @ address r"

text \<open>
  \<^verbatim>\<open>records_by_address\<close> is a \<^verbatim>\<open>dict\<close>, whose \<^verbatim>\<open>values()\<close> come in the order the keys
  were first inserted; the stable \<^verbatim>\<open>sorted\<close> keeps that order among equal timestamps. So
  the dict is an association list: assigning to a key that is present replaces the value in
  place, assigning to a new key adds it at the end.
\<close>

type_synonym 'v dict = "(string \<times> 'v) list"

definition dict_get :: "'v dict \<Rightarrow> string \<Rightarrow> 'v option" where
  "dict_get d k = map_of d k"

fun dict_set :: "'v dict \<Rightarrow> string \<Rightarrow> 'v \<Rightarrow> 'v dict" where
  "dict_set [] k v = [(k, v)]"
| "dict_set ((k', v') # d) k v = (if k' = k then (k, v) # d else (k', v') # dict_set d k v)"

definition dict_values :: "'v dict \<Rightarrow> 'v list" where
  "dict_values d = map snd d"

text \<open>
  The body of the loop over the lines read in \<^verbatim>\<open>append\<close>: a line that does not parse is
  passed over (\<^verbatim>\<open>continue\<close>); a record that parses is kept if its address is new or
  its timestamp is later than the one kept so far.
\<close>

definition merge_existing :: "AddressRecord \<Rightarrow> AddressRecord dict \<Rightarrow> AddressRecord dict" where
  "merge_existing existing records_by_address =
     (case dict_get records_by_address (address existing) of
        None \<Rightarrow> dict_set records_by_address (address existing) existing
      | Some current \<Rightarrow>
          if timestamp existing > timestamp current
          then dict_set records_by_address (address existing) existing
          else records_by_address)"

definition merge_line ::
  "(string \<Rightarrow> datetime option) \<Rightarrow> string \<Rightarrow> AddressRecord dict \<Rightarrow> AddressRecord dict" where
  "merge_line fromisoformat line records_by_address =
     (case from_line fromisoformat line of
        None \<Rightarrow> records_by_address
      | Some existing \<Rightarrow> merge_existing existing records_by_address)"

datatype repo_log = Updated string datetime datetime | Appended string

definition serialize :: "(datetime \<Rightarrow> string) \<Rightarrow> AddressRecord list \<Rightarrow> string" where
  "serialize isoformat sorted_records =
     (let serialized = join [CHR 0x0A] (map (to_line isoformat) sorted_records)
      in if serialized \<noteq> [] then serialized @ [CHR 0x0A] else serialized)"

text \<open>
  \<^verbatim>\<open>AddressRepository.append\<close>: the state is the text of the file; the result is the text
  written and the message logged.
\<close>

definition append_record ::
  "(string \<Rightarrow> datetime option) \<Rightarrow> (datetime \<Rightarrow> string) \<Rightarrow> string \<Rightarrow> AddressRecord
     \<Rightarrow> string \<times> repo_log" where
  "append_record fromisoformat isoformat file record =
     (let lines = splitlines file;
          records_by_address = fold (merge_line fromisoformat) lines [];
          previous = dict_get records_by_address (address record);
          records_by_address = dict_set records_by_address (address record) record;
          sorted_records = sort_key timestamp (dict_values records_by_address)
      in (serialize isoformat sorted_records,
          (case previous of
             Some p \<Rightarrow> Updated (address record) (timestamp p) (timestamp record)
           | None \<Rightarrow> Appended (address record))))"

definition read_all :: "(string \<Rightarrow> datetime option) \<Rightarrow> string \<Rightarrow> AddressRecord list" where
  "read_all fromisoformat file = List.map_filter (from_line fromisoformat) (splitlines file)"

fun first_record :: "(string \<Rightarrow> datetime option) \<Rightarrow> string list \<Rightarrow> AddressRecord option" where
  "first_record fromisoformat [] = None"
| "first_record fromisoformat (line # lines) =
     (case from_line fromisoformat line of
        Some record \<Rightarrow> Some record
      | None \<Rightarrow> first_record fromisoformat lines)"

definition read_latest :: "(string \<Rightarrow> datetime option) \<Rightarrow> string \<Rightarrow> AddressRecord option" where
  "read_latest fromisoformat file = first_record fromisoformat (rev (splitlines file))"

definition clear :: "string \<Rightarrow> string" where
  "clear file = []"

definition create_record :: "string \<Rightarrow> datetime option \<Rightarrow> datetime \<Rightarrow> AddressRecord" where
  \<comment> \<open>the last argument is the clock, read when no timestamp is passed\<close>
  "create_record addr timestamp_opt clock =
     \<lparr>timestamp = (case timestamp_opt of Some ts \<Rightarrow> ts | None \<Rightarrow> clock), address = addr\<rparr>"

text \<open>A run of \<^verbatim>\<open>append\<close> calls, each on the file the one before it wrote.\<close>

definition append_all ::
  "(string \<Rightarrow> datetime option) \<Rightarrow> (datetime \<Rightarrow> string) \<Rightarrow> string \<Rightarrow> AddressRecord list \<Rightarrow> string" where
  "append_all fromisoformat isoformat file records =
     fold (\<lambda>record f. fst (append_record fromisoformat isoformat f record)) records file"


text \<open>The list \<^verbatim>\<open>sorted_records\<close> that \<^verbatim>\<open>append\<close> serialises, as a function of the file and the record.\<close>

definition sorted_records ::
  "(string \<Rightarrow> datetime option) \<Rightarrow> string \<Rightarrow> AddressRecord \<Rightarrow> AddressRecord list" where
  "sorted_records fromisoformat file record =
     sort_key timestamp
       (dict_values
          (dict_set (fold (merge_line fromisoformat) (splitlines file) []) (address record) record))"

text \<open>
  \<^verbatim>\<open>AddressRepository.backup\<close>. The three file-system calls it makes either return or raise
  \<^verbatim>\<open>OSError\<close>; \<open>fs\<close> says which. \<^verbatim>\<open>backup_dir.mkdir\<close> and the computation of the target
  path come before the \<^verbatim>\<open>try\<close>; reading the file and writing the copy are inside it.
\<close>

datatype 'a io_result = Done 'a | OSError

record file_system =
  mkdir :: "unit io_result"
  read_bytes :: "string io_result"
  write_bytes :: "string \<Rightarrow> unit io_result"

datatype backup_log = LogCreatedBackup string | LogBackupFailed

datatype 'a outcome = Return 'a | Raise

definition backup :: "file_system \<Rightarrow> string \<Rightarrow> string option outcome \<times> backup_log list" where
  "backup fs target =
     (case mkdir fs of
        OSError \<Rightarrow> (Raise, [])
      | Done _ \<Rightarrow>
          (case read_bytes fs of
             OSError \<Rightarrow> (Return None, [LogBackupFailed])
           | Done data \<Rightarrow>
               (case write_bytes fs data of
                  OSError \<Rightarrow> (Return None, [LogBackupFailed])
                | Done _ \<Rightarrow> (Return (Some target), [LogCreatedBackup target]))))"


section \<open>wechat\_ocr\_listener.py: the records the listener builds\<close>

text \<open>
  \<^verbatim>\<open>unicodedata.normalize("NFKC", _)\<close> is the parameter \<open>nfkc\<close>. \<^verbatim>\<open>str.lower\<close> on text
  below code point 256 moves A to Z and the accented capitals to their small letters.
\<close>

definition lower_char :: "char \<Rightarrow> char" where
  "lower_char c =
     (let n = (of_char c :: nat)
      in if (65 \<le> n \<and> n \<le> 90) \<or> (192 \<le> n \<and> n \<le> 222 \<and> n \<noteq> 215) then char_of (n + 32) else c)"

definition lower :: "string \<Rightarrow> string" where
  "lower s = map lower_char s"

definition replace_char :: "char \<Rightarrow> string \<Rightarrow> string" where
  \<comment> \<open>\<^verbatim>\<open>s.replace(c, "")\<close> for a one-character \<^verbatim>\<open>c\<close>\<close>
  "replace_char c s = filter (\<lambda>x. x \<noteq> c) s"

definition startswith :: "string \<Rightarrow> string \<Rightarrow> bool" where
  "startswith s prefix = (take (length prefix) s = prefix)"

definition normalize_address :: "(string \<Rightarrow> string) \<Rightarrow> string option \<Rightarrow> string option" where
  "normalize_address nfkc candidate =
     (case candidate of
        None \<Rightarrow> None
      | Some cand \<Rightarrow>
          if cand = [] then None
          else
            (let normalized = nfkc cand;
                 squeezed = replace_char (CHR 0x0D)
                              (replace_char (CHR 0x0A) (replace_char (CHR '' '') normalized));
                 lowered = lower squeezed
             in if \<not> startswith lowered ''0x'' then None
                else if length lowered \<noteq> 42 then None
                else if \<not> list_all (\<lambda>ch. ch \<in> set ''0123456789abcdef'') (drop 2 lowered) then None
                else Some lowered))"

text \<open>
  The loop of \<^verbatim>\<open>_write_temp_addresses\<close>: a record for every candidate that normalises,
  stamped with the clock read at that moment (\<open>clock k\<close> is the \<open>k\<close>-th reading).
\<close>

fun collect_records ::
  "(string \<Rightarrow> string) \<Rightarrow> (nat \<Rightarrow> datetime) \<Rightarrow> nat \<Rightarrow> string list \<Rightarrow> AddressRecord list" where
  "collect_records nfkc clock k [] = []"
| "collect_records nfkc clock k (raw # addresses) =
     (case normalize_address nfkc (Some raw) of
        None \<Rightarrow> collect_records nfkc clock k addresses
      | Some normalized \<Rightarrow>
          create_record normalized (Some (clock k)) (clock k)
            # collect_records nfkc clock (Suc k) addresses)"

definition write_temp_addresses ::
  "(string \<Rightarrow> string) \<Rightarrow> (nat \<Rightarrow> datetime) \<Rightarrow> string list \<Rightarrow> AddressRecord option" where
  "write_temp_addresses nfkc clock addresses =
     (if addresses = [] then None
      else
        (let records = collect_records nfkc clock 0 addresses
         in if records = [] then None else Some (last records)))"


section \<open>trading/time\_guard.py\<close>

text \<open>
  \<^verbatim>\<open>TimeGuard.__init__\<close>: the window is the argument when one is given, else the configured
  \<^verbatim>\<open>CONFIG.trade.require_time_window_seconds\<close>, which \<^verbatim>\<open>config.py\<close> reads from the
  environment with the default 20.
\<close>

definition env_int :: "(string \<Rightarrow> int option) \<Rightarrow> string option \<Rightarrow> int \<Rightarrow> int" where
  \<comment> \<open>\<^verbatim>\<open>_env_int\<close>: the variable's value if it is set and \<^verbatim>\<open>int()\<close> parses it\<close>
  "env_int parse_int value default_value =
     (case value of
        None \<Rightarrow> default_value
      | Some v \<Rightarrow> (case parse_int v of Some n \<Rightarrow> n | None \<Rightarrow> default_value))"

definition require_time_window_seconds :: "(string \<Rightarrow> int option) \<Rightarrow> string option \<Rightarrow> int" where
  "require_time_window_seconds parse_int env = env_int parse_int env 20"

definition TimeGuard_init :: "int option \<Rightarrow> int \<Rightarrow> int" where
  "TimeGuard_init max_age_seconds configured =
     (case max_age_seconds of Some m \<Rightarrow> m | None \<Rightarrow> configured)"

text \<open>
  \<^verbatim>\<open>TimeGuard.is_recent(record, reference=None)\<close>. \<^verbatim>\<open>clock\<close> is what
  \<^verbatim>\<open>datetime.now(timezone.utc)\<close> returns when it is read. A record object is always
  truthy, so \<^verbatim>\<open>not record\<close> holds for \<^verbatim>\<open>None\<close> only; so is a \<^verbatim>\<open>datetime\<close>, hence
  \<^verbatim>\<open>reference or now()\<close> is the reference whenever one is passed.
\<close>

definition is_recent :: "int \<Rightarrow> AddressRecord option \<Rightarrow> datetime option \<Rightarrow> datetime \<Rightarrow> bool" where
  "is_recent max_age record reference clock =
     (case record of
        None \<Rightarrow> False
      | Some r \<Rightarrow>
          (let now = (case reference of Some t \<Rightarrow> t | None \<Rightarrow> clock);
               age = now - timestamp r
           in age \<le> timedelta_seconds max_age))"


section \<open>scheduler/pipeline.py\<close>

record PipelineConfig =
  debounce_seconds :: real
  retry_attempts :: int
  retry_delay_seconds :: real

definition default_pipeline_config :: PipelineConfig where
  \<comment> \<open>\<^verbatim>\<open>PipelineConfig\<close> when the environment sets none of its variables\<close>
  "default_pipeline_config =
     \<lparr>debounce_seconds = 3 / 2, retry_attempts = 3, retry_delay_seconds = 2\<rparr>"

text \<open>
  The part of a \<^verbatim>\<open>TradingPipeline\<close> that \<^verbatim>\<open>_process_record\<close> changes.
  \<^verbatim>\<open>_recent_executions\<close> is a \<^verbatim>\<open>dict\<close> read by key only, so a map.
\<close>

record pipeline =
  last_executed_address :: "string option"
  last_execution_time :: "datetime option"
  recent_executions :: "string \<rightharpoonup> datetime"

definition total_seconds :: "timedelta \<Rightarrow> real" where
  \<comment> \<open>\<^verbatim>\<open>timedelta.total_seconds()\<close>, in exact arithmetic\<close>
  "total_seconds d = real_of_int d / 1000000"

text \<open>
  \<^verbatim>\<open>_should_skip\<close>; \<open>clock\<close> is the reading of \<^verbatim>\<open>datetime.now(timezone.utc)\<close> it takes.
\<close>

definition should_skip :: "PipelineConfig \<Rightarrow> pipeline \<Rightarrow> AddressRecord \<Rightarrow> datetime \<Rightarrow> bool" where
  "should_skip config st record clock =
     (case recent_executions st (address record) of
        None \<Rightarrow> False
      | Some last_exec \<Rightarrow>
          (let elapsed = clock - last_exec
           in total_seconds elapsed < debounce_seconds config))"

text \<open>
  \<^verbatim>\<open>_prune_recent_executions\<close>: every key whose entry is at least \<^verbatim>\<open>threshold\<close> seconds old
  is popped. On an empty dict the function returns at once, which is what the general case
  yields there.
\<close>

definition prune_recent_executions ::
  "PipelineConfig \<Rightarrow> pipeline \<Rightarrow> datetime option \<Rightarrow> datetime \<Rightarrow> pipeline" where
  "prune_recent_executions config st reference clock =
     (let now = (case reference of Some t \<Rightarrow> t | None \<Rightarrow> clock);
          threshold = debounce_seconds config;
          stale = (\<lambda>addr. case recent_executions st addr of
                              None \<Rightarrow> False
                            | Some ts \<Rightarrow> total_seconds (now - ts) \<ge> threshold)
      in st\<lparr>recent_executions :=
              (\<lambda>addr. if stale addr then None else recent_executions st addr)\<rparr>)"

text \<open>
  What one call of \<^verbatim>\<open>BinanceTrader.execute_trade\<close> does, as the retry loop sees it: it
  returns, it raises an \<^verbatim>\<open>Exception\<close>, or it raises something that is not one (a
  cancellation), which no \<^verbatim>\<open>except Exception\<close> catches.
\<close>

datatype trade_result = Returns | RaisesException | RaisesCancelled

datatype event =
    LogDiscardStale AddressRecord
  | LogNotLatest string
  | LogAlreadyProcessed string
  | ListenerPause
  | ListenerResume
  | ExecuteTrade string
  | LogTradeExecuted string
  | LogAttemptFailed int int string
  | Sleep real
  | LogAllFailed string

datatype exit = Completed | Propagated

text \<open>
  The loop of \<^verbatim>\<open>_execute_with_retry\<close> from the value \<open>attempt\<close> of its counter on:
  \<^verbatim>\<open>for attempt in range(1, attempts + 1)\<close>. \<open>trader k\<close> is the result of the \<open>k\<close>-th call of
  \<^verbatim>\<open>execute_trade\<close>.
\<close>

function retry_from ::
  "(int \<Rightarrow> trade_result) \<Rightarrow> string \<Rightarrow> int \<Rightarrow> real \<Rightarrow> int \<Rightarrow> exit \<times> event list" where
  "retry_from trader addr attempts delay attempt =
     (if attempt > attempts then (Completed, [LogAllFailed addr])
      else
        (case trader attempt of
           Returns \<Rightarrow> (Completed, [ExecuteTrade addr, LogTradeExecuted addr])
         | RaisesCancelled \<Rightarrow> (Propagated, [ExecuteTrade addr])
         | RaisesException \<Rightarrow>
             (let (x, later) = retry_from trader addr attempts delay (attempt + 1)
              in (x, [ExecuteTrade addr, LogAttemptFailed attempt attempts addr]
                     @ (if attempt < attempts then [Sleep delay] else [])
                     @ later))))"
  by pat_completeness auto
termination
  by (relation "measure (\<lambda>(trader, addr, attempts, delay, attempt). nat (attempts + 1 - attempt))")
    auto

definition execute_with_retry ::
  "PipelineConfig \<Rightarrow> (int \<Rightarrow> trade_result) \<Rightarrow> string \<Rightarrow> exit \<times> event list" where
  "execute_with_retry config trader addr =
     retry_from trader addr (retry_attempts config) (retry_delay_seconds config) 1"

text \<open>
  \<^verbatim>\<open>_process_record\<close>. Its surroundings are the window of the guard, the codec and the
  text of the repository's file (for \<^verbatim>\<open>read_latest\<close>), the trader, and the three readings
  of the clock it takes: in \<^verbatim>\<open>is_recent\<close>, in \<^verbatim>\<open>_should_skip\<close> and after the execution.
  \<^verbatim>\<open>resume\<close> sits in a \<^verbatim>\<open>finally\<close>; the bookkeeping after it runs only if the retry loop
  returned.
\<close>

record surroundings =
  guard_max_age :: int
  fromisoformat_of :: "string \<Rightarrow> datetime option"
  repo_file :: string
  trader_of :: "int \<Rightarrow> trade_result"
  now_guard :: datetime
  now_skip :: datetime
  now_done :: datetime

text \<open>The statements of \<^verbatim>\<open>_process_record\<close> after the \<^verbatim>\<open>try\<close>: the execution is recorded at the instant \<open>now\<close>, then stale entries are pruned.\<close>

definition bookkeeping :: "PipelineConfig \<Rightarrow> pipeline \<Rightarrow> AddressRecord \<Rightarrow> datetime \<Rightarrow> pipeline" where
  "bookkeeping config st record now =
     prune_recent_executions config
       (st\<lparr>last_executed_address := Some (address record),
           last_execution_time := Some now,
           recent_executions := (recent_executions st)(address record \<mapsto> now)\<rparr>)
       (Some now) now"

definition process_record ::
  "PipelineConfig \<Rightarrow> surroundings \<Rightarrow> pipeline \<Rightarrow> AddressRecord \<Rightarrow> exit \<times> pipeline \<times> event list" where
  "process_record config env st record =
     (if \<not> is_recent (guard_max_age env) (Some record) None (now_guard env)
      then (Completed, st, [LogDiscardStale record])
      else
        (case read_latest (fromisoformat_of env) (repo_file env) of
           None \<Rightarrow> (Completed, st, [LogNotLatest (address record)])
         | Some latest \<Rightarrow>
             if address latest \<noteq> address record \<or> timestamp latest \<noteq> timestamp record
             then (Completed, st, [LogNotLatest (address record)])
             else if should_skip config st record (now_skip env)
             then (Completed, st, [LogAlreadyProcessed (address record)])
             else
               (let (x, tried) = execute_with_retry config (trader_of env) (address record);
                    events = [ListenerPause] @ tried @ [ListenerResume]
                in case x of
                     Propagated \<Rightarrow> (Propagated, st, events)
                   | Completed \<Rightarrow> (Completed, bookkeeping config st record (now_done env), events))))"

text \<open>
  The inner loop of \<^verbatim>\<open>run\<close>: \<^verbatim>\<open>get_nowait\<close> until \<^verbatim>\<open>QueueEmpty\<close>, each item taken
  replacing \<^verbatim>\<open>record\<close>. The queue is the list of pending items, oldest first.
\<close>

fun drain :: "'a \<Rightarrow> 'a list \<Rightarrow> 'a \<times> 'a list" where
  "drain record [] = (record, [])"
| "drain record (item # queue) = drain item queue"

text \<open>
  One turn of the outer loop of \<^verbatim>\<open>run\<close>: \<^verbatim>\<open>await self._queue.get()\<close> yields the oldest
  item once there is one (\<open>None\<close>: the consumer stays suspended on an empty queue), the
  inner loop drains, and the record left is processed. The result is what
  \<^verbatim>\<open>_process_record\<close> returned, and the queue after the turn.
\<close>

definition run_turn ::
  "PipelineConfig \<Rightarrow> surroundings \<Rightarrow> pipeline \<Rightarrow> AddressRecord list
     \<Rightarrow> ((exit \<times> pipeline \<times> event list) \<times> AddressRecord list) option" where
  "run_turn config env st queue =
     (case queue of
        [] \<Rightarrow> None
      | first # pending \<Rightarrow>
          (let (record, queue') = drain first pending
           in Some (process_record config env st record, queue')))"


text \<open>The fields above as \<^verbatim>\<open>TradingPipeline.__init__\<close> sets them.\<close>

definition initial_pipeline :: pipeline where
  "initial_pipeline =
     \<lparr>last_executed_address = None, last_execution_time = None, recent_executions = Map.empty\<rparr>"

text \<open>
  For reading a trace: the addresses \<^verbatim>\<open>execute_trade\<close> was called with, in order, and the
  events one failed attempt leaves (the call, the log entry, and the delay when another
  attempt follows).
\<close>

fun trade_calls :: "event list \<Rightarrow> string list" where
  "trade_calls [] = []"
| "trade_calls (ExecuteTrade addr # events) = addr # trade_calls events"
| "trade_calls (_ # events) = trade_calls events"

definition failed_attempt :: "string \<Rightarrow> int \<Rightarrow> real \<Rightarrow> int \<Rightarrow> event list" where
  "failed_attempt addr attempts delay attempt =
     [ExecuteTrade addr, LogAttemptFailed attempt attempts addr]
       @ (if attempt < attempts then [Sleep delay] else [])"


section \<open>Well-formed values and a codec for examples\<close>

text \<open>
  What the proofs need of the two library functions, at one instant \<open>t\<close>: the text printed for
  \<open>t\<close> parses back to \<open>t\<close>, and it is made of the characters \<^verbatim>\<open>isoformat\<close> prints
  (digits and \<^verbatim>\<open>- T : . +\<close>).
\<close>

definition iso_alphabet :: "char \<Rightarrow> bool" where
  "iso_alphabet c = (c \<in> set ''0123456789-T:.+'')"

definition codec_roundtrip ::
  "(string \<Rightarrow> datetime option) \<Rightarrow> (datetime \<Rightarrow> string) \<Rightarrow> datetime \<Rightarrow> bool" where
  "codec_roundtrip fromisoformat isoformat t =
     (fromisoformat (isoformat t) = Some t \<and> list_all iso_alphabet (isoformat t))"

text \<open>
  An address that a line of the file carries unchanged: \<^verbatim>\<open>strip\<close> leaves it alone and it
  holds no line boundary.
\<close>

definition line_safe :: "string \<Rightarrow> bool" where
  "line_safe a = (strip a = a \<and> list_all (\<lambda>c. \<not> is_line_boundary c) a)"

text \<open>The shape of a normalised address: \<^verbatim>\<open>0x\<close>, then 40 lowercase hexadecimal digits.\<close>

definition lower_hex :: "char \<Rightarrow> bool" where
  "lower_hex c = (c \<in> set ''0123456789abcdef'')"

fun address_shape :: "string \<Rightarrow> bool" where
  "address_shape (c0 # c1 # digits) =
     (c0 = CHR ''0'' \<and> c1 = CHR ''x'' \<and> length digits = 40 \<and> list_all lower_hex digits)"
| "address_shape _ = False"

text \<open>
  For closed examples the two library functions are instantiated by the codec below: the
  text \<^verbatim>\<open>isoformat\<close> prints for a UTC instant, \<^verbatim>\<open>YYYY-MM-DDTHH:MM:SS[.ffffff]+00:00\<close> in the
  proleptic Gregorian calendar, and the parser of exactly that text.
\<close>

definition days_from_civil :: "int \<Rightarrow> int \<Rightarrow> int \<Rightarrow> int" where
  "days_from_civil y m d =
     (let y' = (if m \<le> 2 then y - 1 else y);
          era = y' div 400;
          yoe = y' - era * 400;
          doy = (153 * (if m > 2 then m - 3 else m + 9) + 2) div 5 + d - 1;
          doe = yoe * 365 + yoe div 4 - yoe div 100 + doy
      in era * 146097 + doe - 719468)"

definition civil_from_days :: "int \<Rightarrow> int \<times> int \<times> int" where
  "civil_from_days z =
     (let z' = z + 719468;
          era = z' div 146097;
          doe = z' - era * 146097;
          yoe = (doe - doe div 1460 + doe div 36524 - doe div 146096) div 365;
          doy = doe - (365 * yoe + yoe div 4 - yoe div 100);
          mp = (5 * doy + 2) div 153;
          d = doy - (153 * mp + 2) div 5 + 1;
          m = (if mp < 10 then mp + 3 else mp - 9)
      in ((if m \<le> 2 then yoe + era * 400 + 1 else yoe + era * 400), m, d))"

definition days_in_month :: "int \<Rightarrow> int \<Rightarrow> int" where
  "days_in_month y m =
     (if m = 2 then (if y mod 4 = 0 \<and> (y mod 100 \<noteq> 0 \<or> y mod 400 = 0) then 29 else 28)
      else if m \<in> {4, 6, 9, 11} then 30 else 31)"

definition digit_char :: "int \<Rightarrow> char" where
  "digit_char n = char_of (48 + n)"

fun zero_padded :: "nat \<Rightarrow> int \<Rightarrow> string" where
  "zero_padded 0 n = []"
| "zero_padded (Suc w) n = zero_padded w (n div 10) @ [digit_char (n mod 10)]"

definition is_digit :: "char \<Rightarrow> bool" where
  "is_digit c = (c \<in> set ''0123456789'')"

definition digits_value :: "string \<Rightarrow> int option" where
  "digits_value s =
     (if s \<noteq> [] \<and> list_all is_digit s
      then Some (foldl (\<lambda>acc c. acc * 10 + (of_char c - 48)) 0 s) else None)"

definition utc_isoformat :: "datetime \<Rightarrow> string" where
  "utc_isoformat t =
     (let days = t div 86400000000;
          rest = t mod 86400000000;
          (y, m, d) = civil_from_days days;
          us = rest mod 1000000;
          secs = rest div 1000000
      in zero_padded 4 y @ ''-'' @ zero_padded 2 m @ ''-'' @ zero_padded 2 d @ ''T''
         @ zero_padded 2 (secs div 3600) @ '':'' @ zero_padded 2 (secs div 60 mod 60) @ '':''
         @ zero_padded 2 (secs mod 60)
         @ (if us = 0 then [] else ''.'' @ zero_padded 6 us) @ ''+00:00'')"

definition utc_fromisoformat :: "string \<Rightarrow> datetime option" where
  "utc_fromisoformat s =
     (let n = length s;
          frac = (if n = 32 then take 7 (drop 19 s) else [])
      in if (n = 25 \<or> n = 32 \<and> hd frac = CHR ''.'')
            \<and> s ! 4 = CHR ''-'' \<and> s ! 7 = CHR ''-'' \<and> s ! 10 = CHR ''T''
            \<and> s ! 13 = CHR '':'' \<and> s ! 16 = CHR '':'' \<and> drop (n - 6) s = ''+00:00''
         then
           (case (digits_value (take 4 s), digits_value (take 2 (drop 5 s)),
                  digits_value (take 2 (drop 8 s)), digits_value (take 2 (drop 11 s)),
                  digits_value (take 2 (drop 14 s)), digits_value (take 2 (drop 17 s)),
                  (if n = 32 then digits_value (tl frac) else Some 0)) of
              (Some y, Some m, Some d, Some hh, Some mm, Some ss, Some us) \<Rightarrow>
                if 1 \<le> y \<and> 1 \<le> m \<and> m \<le> 12 \<and> 1 \<le> d \<and> d \<le> days_in_month y m
                   \<and> hh < 24 \<and> mm < 60 \<and> ss < 60
                then Some ((((days_from_civil y m d * 24 + hh) * 60 + mm) * 60 + ss) * 1000000 + us)
                else None
            | _ \<Rightarrow> None)
         else None)"


section \<open>Lines, stripping and splitting\<close>

lemma splitlines_from_Cons:
  "cs \<noteq> [] \<Longrightarrow> splitlines_from cur (c # cs) =
     (if c = CHR 0x0D \<and> hd cs = CHR 0x0A then cur # splitlines_from [] (tl cs)
      else if is_line_boundary c then cur # splitlines_from [] cs
      else splitlines_from (cur @ [c]) cs)"
  by (cases cs) simp_all

lemma splitlines_from_LF:
  "splitlines_from cur (CHR 0x0A # rest) = cur # splitlines_from [] rest"
  by (cases rest) (simp_all add: is_line_boundary_def)

lemma splitlines_from_line:
  "\<forall>c \<in> set l. \<not> is_line_boundary c \<Longrightarrow>
   splitlines_from cur (l @ CHR 0x0A # rest) = (cur @ l) # splitlines_from [] rest"
proof (induction l arbitrary: cur)
  case Nil
  show ?case by (simp add: splitlines_from_LF)
next
  case (Cons c l)
  have nb: "\<not> is_line_boundary c" using Cons.prems by simp
  then have "c \<noteq> CHR 0x0D" by (auto simp: is_line_boundary_def)
  with nb have "splitlines_from cur ((c # l) @ CHR 0x0A # rest)
      = splitlines_from (cur @ [c]) (l @ CHR 0x0A # rest)"
    by (simp add: splitlines_from_Cons)
  also have "\<dots> = ((cur @ [c]) @ l) # splitlines_from [] rest"
    using Cons.prems by (intro Cons.IH) simp
  finally show ?case by simp
qed

lemma splitlines_lines:
  "\<forall>l \<in> set ls. \<forall>c \<in> set l. \<not> is_line_boundary c \<Longrightarrow>
   splitlines (concat (map (\<lambda>l. l @ [CHR 0x0A]) ls)) = ls"
  unfolding splitlines_def
  by (induction ls) (simp_all add: splitlines_from_line)

lemma join_terminated:
  "ls \<noteq> [] \<Longrightarrow> join sep ls @ sep = concat (map (\<lambda>l. l @ sep) ls)"
  by (induction sep ls rule: join.induct) simp_all

lemma splitlines_from_no_boundary:
  "l \<in> set (splitlines_from cur s) \<Longrightarrow> \<forall>c \<in> set cur. \<not> is_line_boundary c \<Longrightarrow>
   c \<in> set l \<Longrightarrow> \<not> is_line_boundary c"
  by (induction cur s rule: splitlines_from.induct) (auto split: if_splits)

lemma splitlines_no_boundary:
  "l \<in> set (splitlines s) \<Longrightarrow> c \<in> set l \<Longrightarrow> \<not> is_line_boundary c"
  unfolding splitlines_def using splitlines_from_no_boundary by fastforce

lemma iso_alphabet_plain:
  "iso_alphabet c \<Longrightarrow> \<not> isspace c \<and> \<not> is_line_boundary c \<and> c \<noteq> CHR ''|''"
  by (auto simp: iso_alphabet_def isspace_def is_line_boundary_def)

lemma strip_id:
  assumes "s \<noteq> []" "\<not> isspace (hd s)" "\<not> isspace (last s)"
  shows "strip s = s"
proof -
  from assms have a: "dropWhile isspace s = s" by (cases s) simp_all
  from assms have "rev s \<noteq> []" "\<not> isspace (hd (rev s))" by (simp_all add: hd_rev)
  then have "dropWhile isspace (rev s) = rev s" by (cases "rev s") simp_all
  with a show ?thesis by (simp add: strip_def)
qed

lemma strip_decomp:
  "dropWhile isspace s = strip s @ rev (takeWhile isspace (rev (dropWhile isspace s)))"
proof -
  let ?b = "dropWhile isspace s"
  have "rev (takeWhile isspace (rev ?b) @ dropWhile isspace (rev ?b)) = ?b"
    by simp
  then have "rev (dropWhile isspace (rev ?b)) @ rev (takeWhile isspace (rev ?b)) = ?b"
    by (simp only: rev_append)
  from this [symmetric] show ?thesis unfolding strip_def .
qed

lemma strip_Nil: "strip [] = []"
  by (simp add: strip_def)

lemma set_strip: "set (strip s) \<subseteq> set s"
proof
  fix c assume "c \<in> set (strip s)"
  then have "c \<in> set (dropWhile isspace (rev (dropWhile isspace s)))" by (simp add: strip_def)
  then have "c \<in> set (rev (dropWhile isspace s))" by (rule set_dropWhileD)
  then have "c \<in> set (dropWhile isspace s)" by simp
  then show "c \<in> set s" by (rule set_dropWhileD)
qed

lemma strip_ends:
  assumes "strip s \<noteq> []"
  shows "\<not> isspace (hd (strip s)) \<and> \<not> isspace (last (strip s))"
proof -
  let ?b = "dropWhile isspace s"
  let ?e = "dropWhile isspace (rev ?b)"
  from assms have e: "?e \<noteq> []" by (simp add: strip_def)
  then have l: "\<not> isspace (hd ?e)" by (rule hd_dropWhile)
  have "last (strip s) = hd ?e" using e by (simp add: strip_def last_rev)
  with l have 1: "\<not> isspace (last (strip s))" by simp
  have b: "?b = strip s @ rev (takeWhile isspace (rev ?b))" by (rule strip_decomp)
  have "?b \<noteq> []"
  proof
    assume "?b = []"
    then have "strip s = []" by (simp add: strip_def del: dropWhile_eq_Nil_conv)
    with assms show False by simp
  qed
  then have "\<not> isspace (hd ?b)" by (rule hd_dropWhile)
  moreover have "hd (strip s @ rev (takeWhile isspace (rev ?b))) = hd (strip s)"
    using assms by (rule hd_append2)
  with b have "hd ?b = hd (strip s)" by simp
  ultimately show ?thesis using 1 by simp
qed

lemma strip_strip: "strip (strip s) = strip s"
proof (cases "strip s = []")
  case True
  then show ?thesis by (simp add: strip_Nil)
next
  case False
  with strip_ends [OF False] show ?thesis by (intro strip_id) simp_all
qed

lemma split_maxsplit1_at:
  "sep \<notin> set x \<Longrightarrow> split_maxsplit1 sep (x @ sep # y) = [x, y]"
proof -
  assume n: "sep \<notin> set x"
  then have "takeWhile (\<lambda>c. c \<noteq> sep) x = x" "dropWhile (\<lambda>c. c \<noteq> sep) x = []"
    by auto
  then show ?thesis
    by (simp add: split_maxsplit1_def takeWhile_tail dropWhile_append3)
qed

lemma set_tl_subset: "set (tl xs) \<subseteq> set xs"
  by (cases xs) auto

lemma split_maxsplit1_parts:
  "p \<in> set (split_maxsplit1 sep s) \<Longrightarrow> set p \<subseteq> set s"
proof -
  have "set (tl (dropWhile (\<lambda>c. c \<noteq> sep) s)) \<subseteq> set (dropWhile (\<lambda>c. c \<noteq> sep) s)"
    by (rule set_tl_subset)
  then have "set (tl (dropWhile (\<lambda>c. c \<noteq> sep) s)) \<subseteq> set s"
    using set_dropWhileD by fastforce
  moreover have "set (takeWhile (\<lambda>c. c \<noteq> sep) s) \<subseteq> set s"
    using set_takeWhileD by fastforce
  moreover assume "p \<in> set (split_maxsplit1 sep s)"
  ultimately show ?thesis by (auto simp: split_maxsplit1_def split: if_splits)
qed

lemma from_line_to_line:
  assumes "codec_roundtrip fromisoformat isoformat t" and "line_safe a"
  shows "from_line fromisoformat (to_line isoformat \<lparr>timestamp = t, address = a\<rparr>)
           = Some \<lparr>timestamp = t, address = a\<rparr>"
proof -
  let ?i = "isoformat t"
  let ?l = "?i @ CHR ''|'' # a"
  from assms have iso: "\<forall>c \<in> set ?i. iso_alphabet c" and rt: "fromisoformat ?i = Some t"
    by (simp_all add: codec_roundtrip_def list_all_iff)
  from assms have sa: "strip a = a" by (simp add: line_safe_def)
  have hd_ok: "\<not> isspace (hd ?l)"
  proof (cases ?i)
    case Nil then show ?thesis by (simp add: isspace_def)
  next
    case (Cons c cs)
    with iso have "iso_alphabet c" by simp
    with Cons show ?thesis by (simp add: iso_alphabet_plain)
  qed
  have last_ok: "\<not> isspace (last ?l)"
  proof (cases "a = []")
    case True then show ?thesis by (simp add: isspace_def)
  next
    case False
    with sa have "strip a \<noteq> []" by simp
    from strip_ends [OF this] sa False show ?thesis by simp
  qed
  have "strip ?l = ?l" using hd_ok last_ok by (intro strip_id) simp_all
  moreover have "CHR ''|'' \<notin> set ?i" using iso iso_alphabet_plain by blast
  then have "split_maxsplit1 (CHR ''|'') ?l = [?i, a]" by (rule split_maxsplit1_at)
  ultimately show ?thesis using rt sa by (simp add: from_line_def to_line_def)
qed

lemma from_line_address_safe:
  assumes "from_line fromisoformat line = Some r"
    and "\<forall>c \<in> set line. \<not> is_line_boundary c"
  shows "line_safe (address r)"
proof -
  from assms(1) obtain ts_part address_part where
    sp: "split_maxsplit1 (CHR ''|'') (strip line) = [ts_part, address_part]"
    and a: "address r = strip address_part"
    by (auto simp: from_line_def split: list.splits option.splits)
  from sp have "set address_part \<subseteq> set (strip line)"
    using split_maxsplit1_parts [of address_part "CHR ''|''" "strip line"] by simp
  then have "set (address r) \<subseteq> set line"
    using a set_strip [of address_part] set_strip [of line] by auto
  with assms(2) a show ?thesis by (auto simp: line_safe_def strip_strip list_all_iff)
qed

lemma dict_values_dict_set:
  "set (dict_values (dict_set d k v)) \<subseteq> insert v (set (dict_values d))"
  by (induction d k v rule: dict_set.induct) (auto simp: dict_values_def)

lemma merge_line_values:
  "set (dict_values (merge_line fromisoformat line d))
     \<subseteq> set (dict_values d) \<union> set_option (from_line fromisoformat line)"
proof (cases "from_line fromisoformat line")
  case None
  then show ?thesis by (simp add: merge_line_def)
next
  case (Some existing)
  have "set (dict_values (dict_set d (address existing) existing))
          \<subseteq> insert existing (set (dict_values d))"
    by (rule dict_values_dict_set)
  with Some show ?thesis
    by (auto simp: merge_line_def merge_existing_def split: option.splits)
qed

lemma fold_merge_line_values:
  "set (dict_values (fold (merge_line fromisoformat) lines d))
     \<subseteq> set (dict_values d) \<union> set (List.map_filter (from_line fromisoformat) lines)"
proof (induction lines arbitrary: d)
  case Nil
  show ?case by (simp add: map_filter_simps)
next
  case (Cons line lines)
  have "set (dict_values (fold (merge_line fromisoformat) lines (merge_line fromisoformat line d)))
        \<subseteq> set (dict_values (merge_line fromisoformat line d)) \<union> set (List.map_filter (from_line fromisoformat) lines)"
    by (rule Cons.IH)
  with merge_line_values [of fromisoformat line d] show ?case
    by (auto simp: map_filter_simps split: option.splits)
qed

lemma read_all_member:
  "r \<in> set (read_all fromisoformat content) \<Longrightarrow> \<exists>line \<in> set (splitlines content). from_line fromisoformat line = Some r"
  by (auto simp: read_all_def map_filter_def)

lemma read_all_address_safe:
  assumes "r \<in> set (read_all fromisoformat content)"
  shows "line_safe (address r)"
proof -
  from read_all_member [OF assms] obtain line where
    "line \<in> set (splitlines content)" "from_line fromisoformat line = Some r" by blast
  then show ?thesis using from_line_address_safe splitlines_no_boundary by blast
qed

lemma to_line_no_boundary:
  assumes "codec_roundtrip fromisoformat isoformat (timestamp r)" "line_safe (address r)"
  shows "\<forall>c \<in> set (to_line isoformat r). \<not> is_line_boundary c"
  using assms iso_alphabet_plain
  by (auto simp: to_line_def codec_roundtrip_def line_safe_def list_all_iff is_line_boundary_def)

lemma serialize_lines:
  "rs \<noteq> [] \<Longrightarrow> serialize isoformat rs = concat (map (\<lambda>l. l @ [CHR 0x0A]) (map (to_line isoformat) rs))"
proof -
  assume ne: "rs \<noteq> []"
  then have "join [CHR 0x0A] (map (to_line isoformat) rs) \<noteq> []"
    by (cases rs; cases "tl rs") (auto simp: to_line_def)
  then show ?thesis using ne by (simp add: serialize_def join_terminated)
qed

lemma read_all_serialize:
  assumes "\<forall>r \<in> set rs. codec_roundtrip fromisoformat isoformat (timestamp r) \<and> line_safe (address r)"
  shows "read_all fromisoformat (serialize isoformat rs) = rs"
proof (cases "rs = []")
  case True
  then show ?thesis
    by (simp add: serialize_def read_all_def splitlines_def map_filter_simps)
next
  case False
  have "\<forall>l \<in> set (map (to_line isoformat) rs). \<forall>c \<in> set l. \<not> is_line_boundary c"
    using assms to_line_no_boundary by auto
  then have "splitlines (concat (map (\<lambda>l. l @ [CHR 0x0A]) (map (to_line isoformat) rs)))
               = map (to_line isoformat) rs"
    by (rule splitlines_lines)
  then have "splitlines (serialize isoformat rs) = map (to_line isoformat) rs"
    by (simp only: serialize_lines [OF False])
  moreover have "List.map_filter (from_line fromisoformat) (map (to_line isoformat) rs) = rs"
    using assms
  proof (induction rs)
    case Nil
    show ?case by (simp add: map_filter_simps)
  next
    case (Cons r rs)
    have "from_line fromisoformat (to_line isoformat r) = Some r"
      using from_line_to_line [of fromisoformat isoformat "timestamp r" "address r"] Cons.prems
      by (cases r) simp
    with Cons show ?case by (simp add: map_filter_simps)
  qed
  ultimately show ?thesis by (simp add: read_all_def)
qed

lemma sorted_records_subset:
  "set (sorted_records fromisoformat content r) \<subseteq> insert r (set (read_all fromisoformat content))"
proof -
  let ?d = "fold (merge_line fromisoformat) (splitlines content) []"
  have "set (dict_values ?d) \<subseteq> set (dict_values []) \<union> set (read_all fromisoformat content)"
    unfolding read_all_def by (rule fold_merge_line_values)
  then have "set (dict_values ?d) \<subseteq> set (read_all fromisoformat content)"
    by (simp add: dict_values_def)
  moreover have "set (dict_values (dict_set ?d (address r) r)) \<subseteq> insert r (set (dict_values ?d))"
    by (rule dict_values_dict_set)
  ultimately show ?thesis by (auto simp: sorted_records_def)
qed

lemma read_all_append_record:
  assumes "\<forall>r' \<in> set (read_all fromisoformat content). codec_roundtrip fromisoformat isoformat (timestamp r')"
    and "codec_roundtrip fromisoformat isoformat (timestamp r)" and "line_safe (address r)"
  shows "read_all fromisoformat (fst (append_record fromisoformat isoformat content r)) = sorted_records fromisoformat content r"
proof -
  have "\<forall>r' \<in> set (sorted_records fromisoformat content r). codec_roundtrip fromisoformat isoformat (timestamp r') \<and> line_safe (address r')"
    using sorted_records_subset [of fromisoformat content r] assms read_all_address_safe by blast
  then have "read_all fromisoformat (serialize isoformat (sorted_records fromisoformat content r)) = sorted_records fromisoformat content r"
    by (rule read_all_serialize)
  then show ?thesis by (simp add: append_record_def sorted_records_def Let_def)
qed

lemma first_record_map_filter:
  "first_record fromisoformat lines =
     (case List.map_filter (from_line fromisoformat) lines of [] \<Rightarrow> None | r # _ \<Rightarrow> Some r)"
  by (induction lines) (auto simp: map_filter_simps split: option.splits)

lemma map_filter_rev: "List.map_filter g (rev xs) = rev (List.map_filter g xs)"
  by (simp add: map_filter_def rev_map rev_filter)

lemma read_latest_last:
  "read_latest fromisoformat content =
     (if read_all fromisoformat content = [] then None else Some (last (read_all fromisoformat content)))"
proof -
  let ?rs = "read_all fromisoformat content"
  have "read_latest fromisoformat content = (case rev ?rs of [] \<Rightarrow> None | r # _ \<Rightarrow> Some r)"
    by (simp add: read_latest_def read_all_def first_record_map_filter map_filter_rev)
  also have "\<dots> = (if ?rs = [] then None else Some (last ?rs))"
    by (cases ?rs rule: rev_cases) simp_all
  finally show ?thesis .
qed

lemma sorted_last_greatest:
  "sorted (map timestamp rs) \<Longrightarrow> r \<in> set rs \<Longrightarrow> timestamp r \<le> timestamp (last rs)"
proof (induction rs rule: rev_induct)
  case Nil
  then show ?case by simp
next
  case (snoc x xs)
  then show ?case by (auto simp: sorted_append)
qed



lemma append_all_snoc:
  "append_all fromisoformat isoformat content (rs @ [r])
     = fst (append_record fromisoformat isoformat (append_all fromisoformat isoformat content rs) r)"
  by (simp add: append_all_def)



lemma fold_merge_line_records:
  "fold (merge_line fromisoformat) lines d = fold merge_existing (List.map_filter (from_line fromisoformat) lines) d"
  by (induction lines arbitrary: d) (simp_all add: merge_line_def split: option.splits)

lemma sorted_records_single:
  assumes "read_all fromisoformat content = [] \<or> (\<exists>r0. read_all fromisoformat content = [r0] \<and> address r0 = address r)"
  shows "sorted_records fromisoformat content r = [r]"
proof -
  have d: "fold (merge_line fromisoformat) (splitlines content) [] = fold merge_existing (read_all fromisoformat content) []"
    by (simp add: fold_merge_line_records read_all_def)
  from assms show ?thesis
  proof
    assume "read_all fromisoformat content = []"
    with d show ?thesis by (simp add: sorted_records_def dict_values_def)
  next
    assume "\<exists>r0. read_all fromisoformat content = [r0] \<and> address r0 = address r"
    then obtain r0 where "read_all fromisoformat content = [r0]" "address r0 = address r" by blast
    with d show ?thesis
      by (simp add: sorted_records_def dict_values_def merge_existing_def dict_get_def)
  qed
qed

lemma same_address_run:
  assumes "rs \<noteq> []"
    and "\<forall>r \<in> set rs. address r = a \<and> codec_roundtrip fromisoformat isoformat (timestamp r)"
    and "line_safe a"
  shows "read_all fromisoformat (append_all fromisoformat isoformat [] rs) = [last rs]"
  using assms(1,2)
proof (induction rs rule: rev_nonempty_induct)
  case (single r)
  have "read_all fromisoformat [] = []" by (simp add: read_all_def splitlines_def)
  then have "sorted_records fromisoformat [] r = [r]" by (simp add: sorted_records_single)
  moreover have "read_all fromisoformat (fst (append_record fromisoformat isoformat [] r)) = sorted_records fromisoformat [] r"
    using single assms(3) by (intro read_all_append_record) (simp_all add: read_all_def splitlines_def)
  ultimately show ?case by (simp add: append_all_def)
next
  case (snoc r rs)
  let ?c = "append_all fromisoformat isoformat [] rs"
  from snoc have ih: "read_all fromisoformat ?c = [last rs]" by simp
  from snoc.prems snoc.hyps have l: "address (last rs) = a" "codec_roundtrip fromisoformat isoformat (timestamp (last rs))"
    by simp_all
  from snoc.prems have r: "address r = a" "codec_roundtrip fromisoformat isoformat (timestamp r)" by simp_all
  have "sorted_records fromisoformat ?c r = [r]" using ih l r by (simp add: sorted_records_single)
  moreover have "read_all fromisoformat (fst (append_record fromisoformat isoformat ?c r)) = sorted_records fromisoformat ?c r"
    using ih l r assms(3) by (intro read_all_append_record) simp_all
  ultimately show ?case by (simp add: append_all_snoc)
qed

lemma sorted_last_Max:
  assumes "rs \<noteq> []" "sorted (map timestamp rs)"
  shows "timestamp (last rs) = Max (timestamp ` set rs)"
proof -
  have "Max (timestamp ` set rs) = timestamp (last rs)"
  proof (rule Max_eqI)
    show "finite (timestamp ` set rs)" by simp
    show "timestamp (last rs) \<in> timestamp ` set rs" using assms(1) by simp
    fix y assume "y \<in> timestamp ` set rs"
    then show "y \<le> timestamp (last rs)" using sorted_last_greatest [OF assms(2)] by auto
  qed
  then show ?thesis by simp
qed


lemma lower_hex_plain: "lower_hex c \<Longrightarrow> \<not> isspace c \<and> \<not> is_line_boundary c"
  by (auto simp: lower_hex_def isspace_def is_line_boundary_def)

lemma address_shape_cases:
  "address_shape a \<Longrightarrow> \<exists>digits. a = CHR ''0'' # CHR ''x'' # digits \<and> list_all lower_hex digits"
  by (induction a rule: address_shape.induct) simp_all

lemma address_shape_plain:
  assumes "address_shape a" "c \<in> set a"
  shows "\<not> isspace c \<and> \<not> is_line_boundary c"
proof -
  from address_shape_cases [OF assms(1)] obtain digits where
    a: "a = CHR ''0'' # CHR ''x'' # digits" and d: "list_all lower_hex digits" by blast
  from assms(2) a have "c = CHR ''0'' \<or> c = CHR ''x'' \<or> c \<in> set digits" by auto
  then show ?thesis
  proof (elim disjE)
    assume "c \<in> set digits"
    with d have "lower_hex c" by (simp add: list_all_iff)
    then show ?thesis by (rule lower_hex_plain)
  qed (simp_all add: isspace_def is_line_boundary_def)
qed

lemma address_shape_line_safe:
  assumes "address_shape a"
  shows "line_safe a"
proof -
  from address_shape_cases [OF assms] have ne: "a \<noteq> []" by auto
  then have "hd a \<in> set a" "last a \<in> set a" by simp_all
  then have "\<not> isspace (hd a)" "\<not> isspace (last a)"
    using address_shape_plain [OF assms] by blast+
  with ne have "strip a = a" by (rule strip_id)
  moreover have "list_all (\<lambda>c. \<not> is_line_boundary c) a"
    using address_shape_plain [OF assms] by (simp add: list_all_iff)
  ultimately show ?thesis by (simp add: line_safe_def)
qed


section \<open>Properties of the Record Store\<close>

text \<open>
  The theorems about the store hold for every pair of library functions; what they ask of
  the pair is \<open>codec_roundtrip\<close> at the instants involved. They ask of an appended address
  that it is \<open>line_safe\<close>, which every normalised address is
  (\<open>address_shape_line_safe\<close>).
\<close>



text \<open>
  A file whose two valid lines are not in order of timestamp (no \<^verbatim>\<open>append\<close> wrote it):
  \<^verbatim>\<open>read_latest\<close> returns the record of the last line, with timestamp 5 s, while the
  history holds a record with timestamp 10 s.
\<close>

theorem read_latest_unsorted_counterexample:
  "read_latest utc_fromisoformat
     (''1970-01-01T00:00:10+00:00|0xaaaaaaaaaaaaaaaaaaaaaaaaaaaaaaaaaaaaaaaa'' @ [CHR 0x0A]
      @ ''1970-01-01T00:00:05+00:00|0xbbbbbbbbbbbbbbbbbbbbbbbbbbbbbbbbbbbbbbbb'' @ [CHR 0x0A])
     = Some \<lparr>timestamp = 5000000, address = ''0xbbbbbbbbbbbbbbbbbbbbbbbbbbbbbbbbbbbbbbbb''\<rparr>
   \<and> read_all utc_fromisoformat
     (''1970-01-01T00:00:10+00:00|0xaaaaaaaaaaaaaaaaaaaaaaaaaaaaaaaaaaaaaaaa'' @ [CHR 0x0A]
      @ ''1970-01-01T00:00:05+00:00|0xbbbbbbbbbbbbbbbbbbbbbbbbbbbbbbbbbbbbbbbb'' @ [CHR 0x0A])
     = [\<lparr>timestamp = 10000000, address = ''0xaaaaaaaaaaaaaaaaaaaaaaaaaaaaaaaaaaaaaaaa''\<rparr>,
        \<lparr>timestamp = 5000000, address = ''0xbbbbbbbbbbbbbbbbbbbbbbbbbbbbbbbbbbbbbbbb''\<rparr>]"
  by code_simp

text \<open>
  Claim C7, as amended. For every content of the file, \<^verbatim>\<open>read_latest()\<close> returns the last
  valid record in file order, and none when no line is valid. Whenever the valid records
  stand in non-decreasing order of timestamp, this record carries the greatest timestamp of
  the history.
\<close>

theorem read_latest_is_last_valid:
  "read_latest fromisoformat file
     = (if read_all fromisoformat file = [] then None
        else Some (last (read_all fromisoformat file)))
   \<and> (sorted (map timestamp (read_all fromisoformat file)) \<longrightarrow>
        (\<forall>r \<in> set (read_all fromisoformat file).
           timestamp r \<le> timestamp (last (read_all fromisoformat file))))"
  using read_latest_last sorted_last_greatest by blast

theorem read_latest_is_last_valid_witness:
  "read_latest utc_fromisoformat
     (''junk'' @ [CHR 0x0A]
      @ ''1970-01-01T00:00:05+00:00|0xbbbbbbbbbbbbbbbbbbbbbbbbbbbbbbbbbbbbbbbb'' @ [CHR 0x0A]
      @ ''1970-01-01T00:00:10+00:00|0xaaaaaaaaaaaaaaaaaaaaaaaaaaaaaaaaaaaaaaaa'' @ [CHR 0x0A]
      @ ''no timestamp|0xcccccccccccccccccccccccccccccccccccccccc'' @ [CHR 0x0A])
     = Some \<lparr>timestamp = 10000000, address = ''0xaaaaaaaaaaaaaaaaaaaaaaaaaaaaaaaaaaaaaaaa''\<rparr>
   \<and> sorted (map timestamp (read_all utc_fromisoformat
     (''junk'' @ [CHR 0x0A]
      @ ''1970-01-01T00:00:05+00:00|0xbbbbbbbbbbbbbbbbbbbbbbbbbbbbbbbbbbbbbbbb'' @ [CHR 0x0A]
      @ ''1970-01-01T00:00:10+00:00|0xaaaaaaaaaaaaaaaaaaaaaaaaaaaaaaaaaaaaaaaa'' @ [CHR 0x0A]
      @ ''no timestamp|0xcccccccccccccccccccccccccccccccccccccccc'' @ [CHR 0x0A])))
   \<and> list_all (\<lambda>r. timestamp r \<le> 10000000) (read_all utc_fromisoformat
     (''junk'' @ [CHR 0x0A]
      @ ''1970-01-01T00:00:05+00:00|0xbbbbbbbbbbbbbbbbbbbbbbbbbbbbbbbbbbbbbbbb'' @ [CHR 0x0A]
      @ ''1970-01-01T00:00:10+00:00|0xaaaaaaaaaaaaaaaaaaaaaaaaaaaaaaaaaaaaaaaa'' @ [CHR 0x0A]
      @ ''no timestamp|0xcccccccccccccccccccccccccccccccccccccccc'' @ [CHR 0x0A]))"
proof -
  let ?file = "''junk'' @ [CHR 0x0A]
      @ ''1970-01-01T00:00:05+00:00|0xbbbbbbbbbbbbbbbbbbbbbbbbbbbbbbbbbbbbbbbb'' @ [CHR 0x0A]
      @ ''1970-01-01T00:00:10+00:00|0xaaaaaaaaaaaaaaaaaaaaaaaaaaaaaaaaaaaaaaaa'' @ [CHR 0x0A]
      @ ''no timestamp|0xcccccccccccccccccccccccccccccccccccccccc'' @ [CHR 0x0A]"
  have ra: "read_all utc_fromisoformat ?file
      = [\<lparr>timestamp = 5000000, address = ''0xbbbbbbbbbbbbbbbbbbbbbbbbbbbbbbbbbbbbbbbb''\<rparr>,
         \<lparr>timestamp = 10000000, address = ''0xaaaaaaaaaaaaaaaaaaaaaaaaaaaaaaaaaaaaaaaa''\<rparr>]"
    by code_simp
  have s: "sorted (map timestamp (read_all utc_fromisoformat ?file))"
    unfolding ra by simp
  from read_latest_is_last_valid [of utc_fromisoformat ?file]
  have 1: "read_latest utc_fromisoformat ?file
      = Some \<lparr>timestamp = 10000000, address = ''0xaaaaaaaaaaaaaaaaaaaaaaaaaaaaaaaaaaaaaaaa''\<rparr>"
    unfolding ra by simp
  from read_latest_is_last_valid [of utc_fromisoformat ?file] s
  have 2: "list_all (\<lambda>r. timestamp r \<le> 10000000) (read_all utc_fromisoformat ?file)"
    unfolding ra by (simp add: list_all_iff)
  from 1 s 2 show ?thesis by (intro conjI)
qed

text \<open>
  What a run of appends of one address to the empty store leaves: exactly one entry, the
  record of the last call. Its timestamp is the greatest of those appended when the calls
  come in non-decreasing order of timestamp.
\<close>

lemma same_address_appends:
  assumes "records \<noteq> []"
    and "\<forall>r \<in> set records.
           address r = a \<and> codec_roundtrip fromisoformat isoformat (timestamp r)"
    and "line_safe a"
  shows "read_latest fromisoformat (append_all fromisoformat isoformat [] records)
           = Some (last records)
       \<and> read_all fromisoformat (append_all fromisoformat isoformat [] records) = [last records]
       \<and> (sorted (map timestamp records) \<longrightarrow>
            timestamp (last records) = Max (timestamp ` set records))"
proof -
  have ra: "read_all fromisoformat (append_all fromisoformat isoformat [] records) = [last records]"
    using assms by (rule same_address_run)
  then have "read_latest fromisoformat (append_all fromisoformat isoformat [] records)
           = Some (last records)"
    by (simp add: read_latest_last)
  with ra assms(1) show ?thesis by (simp add: sorted_last_Max)
qed

text \<open>
  Claim C1. For every sequence of \<^verbatim>\<open>append\<close> calls that all carry the same address,
  \<^verbatim>\<open>read_latest()\<close> afterwards returns the record whose timestamp is the maximum among those
  appended, and the store contains exactly one entry for that address. The code does not
  do this when a later call carries an earlier timestamp: \<^verbatim>\<open>append\<close> compares timestamps
  among the lines it read, but assigns the incoming record without comparing. Below, 10 s
  and then 5 s are appended for one address; the store keeps 5 s.
\<close>

theorem older_append_overwrites_newer:
  "read_latest utc_fromisoformat
     (append_all utc_fromisoformat utc_isoformat []
        [\<lparr>timestamp = 10000000, address = ''0xaaaaaaaaaaaaaaaaaaaaaaaaaaaaaaaaaaaaaaaa''\<rparr>,
         \<lparr>timestamp = 5000000, address = ''0xaaaaaaaaaaaaaaaaaaaaaaaaaaaaaaaaaaaaaaaa''\<rparr>])
     = Some \<lparr>timestamp = 5000000, address = ''0xaaaaaaaaaaaaaaaaaaaaaaaaaaaaaaaaaaaaaaaa''\<rparr>
   \<and> Max (timestamp ` set
        [\<lparr>timestamp = 10000000, address = ''0xaaaaaaaaaaaaaaaaaaaaaaaaaaaaaaaaaaaaaaaa''\<rparr>,
         \<lparr>timestamp = 5000000, address = ''0xaaaaaaaaaaaaaaaaaaaaaaaaaaaaaaaaaaaaaaaa''\<rparr>])
     = 10000000"
proof -
  have "read_latest utc_fromisoformat
     (append_all utc_fromisoformat utc_isoformat []
        [\<lparr>timestamp = 10000000, address = ''0xaaaaaaaaaaaaaaaaaaaaaaaaaaaaaaaaaaaaaaaa''\<rparr>,
         \<lparr>timestamp = 5000000, address = ''0xaaaaaaaaaaaaaaaaaaaaaaaaaaaaaaaaaaaaaaaa''\<rparr>])
     = Some \<lparr>timestamp = 5000000, address = ''0xaaaaaaaaaaaaaaaaaaaaaaaaaaaaaaaaaaaaaaaa''\<rparr>"
    by code_simp
  then show ?thesis by simp
qed


text \<open>
  Inside the \<^verbatim>\<open>try\<close>, a failure of the read or of the write is logged and \<^verbatim>\<open>backup\<close>
  returns \<^verbatim>\<open>None\<close>.
\<close>

lemma backup_failure_inside_try:
  assumes "mkdir fs = Done ()"
    and "read_bytes fs = OSError \<or> (\<exists>data. read_bytes fs = Done data \<and> write_bytes fs data = OSError)"
  shows "backup fs target = (Return None, [LogBackupFailed])"
  using assms by (auto simp: backup_def)

text \<open>
  Claim C9. For every I/O failure during the backup operation, \<^verbatim>\<open>backup()\<close> returns the
  no-snapshot result and logs the failure; no I/O error propagates to the caller. The code
  does not do this when the failure is that of \<^verbatim>\<open>backup_dir.mkdir\<close>, which stands before
  the \<^verbatim>\<open>try\<close>: the \<^verbatim>\<open>OSError\<close> leaves \<^verbatim>\<open>backup\<close>, and nothing is logged.
\<close>

theorem backup_mkdir_failure_escapes:
  "backup \<lparr>mkdir = OSError,
           read_bytes = Done ''1970-01-01T00:00:10+00:00|0xaaaaaaaaaaaaaaaaaaaaaaaaaaaaaaaaaaaaaaaa'',
           write_bytes = (\<lambda>data. Done ())\<rparr>
     ''backup/addresses_19700101_000020.txt''
   = (Raise, [])"
  by (simp add: backup_def)


section \<open>Properties of the Recency Guard\<close>

text \<open>
  Claim C8. For every record and every reference time \<open>now\<close>, \<^verbatim>\<open>is_recent(record, now)\<close>
  is true exactly when \<open>now - record.timestamp \<le> max_age\<close>, with \<open>max_age\<close> the
  configured window (20 seconds unless configured otherwise); for a missing record it is
  false at every \<open>now\<close>.
\<close>

theorem is_recent_iff_within_max_age:
  "is_recent max_age (Some r) (Some now) clock
     = (now - timestamp r \<le> timedelta_seconds max_age)
   \<and> is_recent max_age None reference clock = False
   \<and> TimeGuard_init None (require_time_window_seconds parse_int None) = 20"
  by (simp add: is_recent_def TimeGuard_init_def require_time_window_seconds_def env_int_def)


section \<open>Properties of the records the system builds\<close>

lemma address_shape_intro:
  assumes "startswith s ''0x''" "length s = 42"
    "list_all (\<lambda>ch. ch \<in> set ''0123456789abcdef'') (drop 2 s)"
  shows "address_shape s"
proof -
  from assms(2) obtain c0 s' where s: "s = c0 # s'" by (cases s) auto
  with assms(2) obtain c1 digits where s': "s' = c1 # digits" by (cases s') auto
  from assms s s' show ?thesis by (simp add: startswith_def lower_hex_def [abs_def])
qed

lemma normalize_address_shape:
  assumes "normalize_address nfkc candidate = Some a"
  shows "address_shape a"
proof -
  from assms obtain cand where c: "candidate = Some cand" "cand \<noteq> []"
    by (cases candidate) (auto simp: normalize_address_def split: if_splits)
  define lowered where
    "lowered = lower (replace_char (CHR 0x0D)
                  (replace_char (CHR 0x0A) (replace_char (CHR '' '') (nfkc cand))))"
  have "normalize_address nfkc (Some cand) =
     (if \<not> startswith lowered ''0x'' then None
      else if length lowered \<noteq> 42 then None
      else if \<not> list_all (\<lambda>ch. ch \<in> set ''0123456789abcdef'') (drop 2 lowered) then None
      else Some lowered)"
    using c(2) unfolding normalize_address_def lowered_def Let_def by simp
  with assms c(1) have "startswith lowered ''0x''" "length lowered = 42"
    "list_all (\<lambda>ch. ch \<in> set ''0123456789abcdef'') (drop 2 lowered)" "a = lowered"
    by (simp_all split: if_splits)
  then show ?thesis using address_shape_intro by blast
qed

lemma collect_records_shape:
  "r \<in> set (collect_records nfkc clock k addresses) \<Longrightarrow> address_shape (address r)"
proof (induction addresses arbitrary: k)
  case Nil
  then show ?case by simp
next
  case (Cons raw addresses)
  show ?case
  proof (cases "normalize_address nfkc (Some raw)")
    case None
    with Cons show ?thesis by simp
  next
    case (Some normalized)
    then have "address_shape normalized" by (rule normalize_address_shape)
    with Cons Some show ?thesis by (auto simp: create_record_def)
  qed
qed

text \<open>
  A persisted line whose address is not an address: \<^verbatim>\<open>from_line\<close> builds the record all
  the same, and so does \<^verbatim>\<open>create_record\<close> from the bare text.
\<close>

theorem from_line_unnormalized_counterexample:
  "from_line utc_fromisoformat ''1970-01-01T00:00:10+00:00|hello''
     = Some \<lparr>timestamp = 10000000, address = ''hello''\<rparr>
   \<and> create_record ''hello'' None 10000000 = \<lparr>timestamp = 10000000, address = ''hello''\<rparr>
   \<and> \<not> address_shape ''hello''"
  by code_simp

text \<open>
  Claim C5, as amended. Every record that the capture path builds (a candidate that
  \<^verbatim>\<open>_normalize_address\<close> accepts, passed to \<^verbatim>\<open>create_record\<close>) has an address of the form
  \<^verbatim>\<open>0x\<close> followed by exactly 40 lowercase hexadecimal characters. \<^verbatim>\<open>create_record\<close> and
  \<^verbatim>\<open>AddressRecord.from_line\<close> do not check the address: they keep the text they are given.
\<close>

theorem captured_records_normalized:
  "(normalize_address nfkc candidate = Some a \<longrightarrow> address_shape a)
   \<and> (\<forall>r \<in> set (collect_records nfkc clock k addresses). address_shape (address r))
   \<and> (write_temp_addresses nfkc clock addresses = Some r \<longrightarrow> address_shape (address r))
   \<and> address (create_record a timestamp_opt now) = a"
proof (intro conjI impI ballI)
  show "address_shape a" if "normalize_address nfkc candidate = Some a"
    using that by (rule normalize_address_shape)
  show "address_shape (address r')" if "r' \<in> set (collect_records nfkc clock k addresses)" for r'
    using that by (rule collect_records_shape)
  show "address_shape (address r)" if w: "write_temp_addresses nfkc clock addresses = Some r"
  proof -
    from w have "collect_records nfkc clock 0 addresses \<noteq> []"
      and "r = last (collect_records nfkc clock 0 addresses)"
      by (auto simp: write_temp_addresses_def Let_def split: if_splits)
    then have "r \<in> set (collect_records nfkc clock 0 addresses)" by simp
    then show ?thesis by (rule collect_records_shape)
  qed
  show "address (create_record a timestamp_opt now) = a" by (simp add: create_record_def)
qed

theorem captured_records_normalized_witness:
  "normalize_address (\<lambda>s. s) (Some ''0X ABCDEF0123ABCDEF0123ABCDEF0123ABCDEF0123'')
     = Some ''0xabcdef0123abcdef0123abcdef0123abcdef0123''
   \<and> address_shape ''0xabcdef0123abcdef0123abcdef0123abcdef0123''
   \<and> write_temp_addresses (\<lambda>s. s) (\<lambda>k. 10000000 + int k)
        [''0x123'', ''0X ABCDEF0123ABCDEF0123ABCDEF0123ABCDEF0123'']
     = Some \<lparr>timestamp = 10000000, address = ''0xabcdef0123abcdef0123abcdef0123abcdef0123''\<rparr>"
proof -
  have n: "normalize_address (\<lambda>s. s) (Some ''0X ABCDEF0123ABCDEF0123ABCDEF0123ABCDEF0123'')
     = Some ''0xabcdef0123abcdef0123abcdef0123abcdef0123''"
    by code_simp
  have w: "write_temp_addresses (\<lambda>s. s) (\<lambda>k. 10000000 + int k)
        [''0x123'', ''0X ABCDEF0123ABCDEF0123ABCDEF0123ABCDEF0123'']
     = Some \<lparr>timestamp = 10000000, address = ''0xabcdef0123abcdef0123abcdef0123abcdef0123''\<rparr>"
    by code_simp
  have "address_shape ''0xabcdef0123abcdef0123abcdef0123abcdef0123''"
    by (rule captured_records_normalized [THEN conjunct1, THEN mp, OF n])
  with n w show ?thesis by (intro conjI)
qed


section \<open>Properties of the pipeline\<close>

lemma trade_calls_append: "trade_calls (xs @ ys) = trade_calls xs @ trade_calls ys"
  by (induction xs rule: trade_calls.induct) simp_all

lemma drain_last: "drain x queue = (last (x # queue), [])"
  by (induction queue arbitrary: x) simp_all

declare retry_from.simps [simp del]

lemma retry_from_all_fail:
  "(\<forall>k. attempt \<le> k \<and> k \<le> attempts \<longrightarrow> trader k = RaisesException) \<Longrightarrow>
   retry_from trader addr attempts delay attempt
     = (Completed,
        concat (map (failed_attempt addr attempts delay) [attempt..attempts]) @ [LogAllFailed addr])"
proof (induction trader addr attempts delay attempt rule: retry_from.induct)
  case (1 trader addr attempts delay attempt)
  show ?case
  proof (cases "attempt > attempts")
    case True
    then show ?thesis by (subst retry_from.simps) simp
  next
    case False
    then have le: "attempt \<le> attempts" by simp
    with "1.prems" have f: "trader attempt = RaisesException" by simp
    have "retry_from trader addr attempts delay (attempt + 1)
        = (Completed,
           concat (map (failed_attempt addr attempts delay) [attempt + 1..attempts])
             @ [LogAllFailed addr])"
      using False f "1.prems" by (intro "1.IH") simp_all
    moreover have "[attempt..attempts] = attempt # [attempt + 1..attempts]"
      using le by (rule upto_rec1)
    ultimately show ?thesis
      using False f by (subst retry_from.simps) (simp add: failed_attempt_def)
  qed
qed

lemma trade_calls_failed_attempts:
  "trade_calls (concat (map (failed_attempt addr attempts delay) ks)) = replicate (length ks) addr"
  by (induction ks) (simp_all add: trade_calls_append failed_attempt_def)

lemma retry_from_completed_trace:
  assumes "\<forall>k. 1 \<le> k \<and> k \<le> retry_attempts config \<longrightarrow> trader k = RaisesException"
  shows "execute_with_retry config trader addr
     = (Completed,
        concat (map (failed_attempt addr (retry_attempts config) (retry_delay_seconds config))
                  [1..retry_attempts config])
          @ [LogAllFailed addr])"
  unfolding execute_with_retry_def using assms by (rule retry_from_all_fail)

lemma execute_with_retry_success:
  "fst (execute_with_retry config (\<lambda>k. Returns) addr) = Completed"
  unfolding execute_with_retry_def by (subst retry_from.simps) simp

lemma process_record_accepted:
  assumes "is_recent (guard_max_age env) (Some record) None (now_guard env)"
    and "read_latest (fromisoformat_of env) (repo_file env) = Some record"
    and "\<not> should_skip config st record (now_skip env)"
    and "execute_with_retry config (trader_of env) (address record) = (Completed, tried)"
  shows "process_record config env st record
     = (Completed, bookkeeping config st record (now_done env),
        [ListenerPause] @ tried @ [ListenerResume])"
  using assms by (simp add: process_record_def bookkeeping_def Let_def)

text \<open>
  Claim C2. On each wake of the consumer loop, after taking the first available item the
  loop drains every item already queued without blocking, keeps the last one dequeued, and
  processes exactly that record: of a burst enqueued before the wake, only the most
  recently enqueued record is passed to \<^verbatim>\<open>_process_record\<close>, and the queue is left empty.
\<close>

theorem wake_processes_last_queued:
  assumes "queue \<noteq> []"
  shows "run_turn config env st queue = Some (process_record config env st (last queue), [])"
  using assms by (cases queue) (simp_all add: run_turn_def drain_last)

theorem wake_processes_last_queued_witness:
  "run_turn default_pipeline_config
     \<lparr>guard_max_age = 20, fromisoformat_of = utc_fromisoformat,
      repo_file = ''1970-01-01T00:00:12+00:00|0xcccccccccccccccccccccccccccccccccccccccc'' @ [CHR 0x0A],
      trader_of = (\<lambda>k. Returns),
      now_guard = 13000000, now_skip = 13000000, now_done = 14000000\<rparr>
     initial_pipeline
     [\<lparr>timestamp = 10000000, address = ''0xaaaaaaaaaaaaaaaaaaaaaaaaaaaaaaaaaaaaaaaa''\<rparr>,
      \<lparr>timestamp = 11000000, address = ''0xbbbbbbbbbbbbbbbbbbbbbbbbbbbbbbbbbbbbbbbb''\<rparr>,
      \<lparr>timestamp = 12000000, address = ''0xcccccccccccccccccccccccccccccccccccccccc''\<rparr>]
   = Some
      (process_record default_pipeline_config
         \<lparr>guard_max_age = 20, fromisoformat_of = utc_fromisoformat,
          repo_file = ''1970-01-01T00:00:12+00:00|0xcccccccccccccccccccccccccccccccccccccccc'' @ [CHR 0x0A],
          trader_of = (\<lambda>k. Returns),
          now_guard = 13000000, now_skip = 13000000, now_done = 14000000\<rparr>
         initial_pipeline
         \<lparr>timestamp = 12000000, address = ''0xcccccccccccccccccccccccccccccccccccccccc''\<rparr>,
       [])"
proof -
  let ?queue = "[\<lparr>timestamp = 10000000, address = ''0xaaaaaaaaaaaaaaaaaaaaaaaaaaaaaaaaaaaaaaaa''\<rparr>,
      \<lparr>timestamp = 11000000, address = ''0xbbbbbbbbbbbbbbbbbbbbbbbbbbbbbbbbbbbbbbbb''\<rparr>,
      \<lparr>timestamp = 12000000, address = ''0xcccccccccccccccccccccccccccccccccccccccc''\<rparr>]"
  have h: "?queue \<noteq> []" by simp
  from wake_processes_last_queued [OF h] show ?thesis by simp
qed

text \<open>
  Claim C3. If every attempt of the Trade Action for an address fails (raises an
  \<^verbatim>\<open>Exception\<close>), the executor calls it exactly \<open>N\<close> times, \<open>N\<close> the configured
  \<^verbatim>\<open>retry_attempts\<close> (a count: no call when the setting is not positive; 3 by default). It
  waits the fixed delay after each failed attempt but the last, then logs that all attempts
  failed. No exception leaves \<^verbatim>\<open>_process_record\<close>, the listener is resumed, and the
  bookkeeping that follows is the one that follows a success: the pipeline ends in the
  state it reaches when the first attempt succeeds.
\<close>

theorem exhausted_retries_still_recorded:
  assumes "\<forall>k. 1 \<le> k \<and> k \<le> retry_attempts config \<longrightarrow> trader_of env k = RaisesException"
    and "is_recent (guard_max_age env) (Some record) None (now_guard env)"
    and "read_latest (fromisoformat_of env) (repo_file env) = Some record"
    and "\<not> should_skip config st record (now_skip env)"
  shows "process_record config env st record
           = (Completed, bookkeeping config st record (now_done env),
              [ListenerPause]
                @ concat (map (failed_attempt (address record) (retry_attempts config)
                                 (retry_delay_seconds config)) [1..retry_attempts config])
                @ [LogAllFailed (address record), ListenerResume])
       \<and> trade_calls (snd (snd (process_record config env st record)))
           = replicate (nat (retry_attempts config)) (address record)
       \<and> fst (snd (process_record config env st record))
           = fst (snd (process_record config (env\<lparr>trader_of := (\<lambda>k. Returns)\<rparr>) st record))"
proof -
  let ?tried = "concat (map (failed_attempt (address record) (retry_attempts config)
                   (retry_delay_seconds config)) [1..retry_attempts config])
                @ [LogAllFailed (address record)]"
  have "execute_with_retry config (trader_of env) (address record) = (Completed, ?tried)"
    using assms(1) by (rule retry_from_completed_trace)
  with assms(2-4) have p: "process_record config env st record
      = (Completed, bookkeeping config st record (now_done env),
         [ListenerPause] @ ?tried @ [ListenerResume])"
    by (rule process_record_accepted)
  obtain tried' where "execute_with_retry config (\<lambda>k. Returns) (address record) = (Completed, tried')"
    using execute_with_retry_success [of config "address record"]
    by (cases "execute_with_retry config (\<lambda>k. Returns) (address record)") auto
  with assms(2-4) have "process_record config (env\<lparr>trader_of := (\<lambda>k. Returns)\<rparr>) st record
      = (Completed, bookkeeping config st record (now_done env),
         [ListenerPause] @ tried' @ [ListenerResume])"
    using process_record_accepted
      [of "env\<lparr>trader_of := (\<lambda>k. Returns)\<rparr>" "record" config st tried']
    by simp
  with p show ?thesis
    by (simp add: trade_calls_append trade_calls_failed_attempts)
qed

theorem exhausted_retries_still_recorded_witness:
  "process_record default_pipeline_config
     \<lparr>guard_max_age = 20, fromisoformat_of = utc_fromisoformat,
      repo_file = ''1970-01-01T00:00:10+00:00|0xaaaaaaaaaaaaaaaaaaaaaaaaaaaaaaaaaaaaaaaa'' @ [CHR 0x0A],
      trader_of = (\<lambda>k. RaisesException),
      now_guard = 12000000, now_skip = 12000000, now_done = 19000000\<rparr>
     initial_pipeline
     \<lparr>timestamp = 10000000, address = ''0xaaaaaaaaaaaaaaaaaaaaaaaaaaaaaaaaaaaaaaaa''\<rparr>
   = (Completed,
      bookkeeping default_pipeline_config initial_pipeline
        \<lparr>timestamp = 10000000, address = ''0xaaaaaaaaaaaaaaaaaaaaaaaaaaaaaaaaaaaaaaaa''\<rparr> 19000000,
      [ListenerPause,
       ExecuteTrade ''0xaaaaaaaaaaaaaaaaaaaaaaaaaaaaaaaaaaaaaaaa'',
       LogAttemptFailed 1 3 ''0xaaaaaaaaaaaaaaaaaaaaaaaaaaaaaaaaaaaaaaaa'',
       Sleep 2,
       ExecuteTrade ''0xaaaaaaaaaaaaaaaaaaaaaaaaaaaaaaaaaaaaaaaa'',
       LogAttemptFailed 2 3 ''0xaaaaaaaaaaaaaaaaaaaaaaaaaaaaaaaaaaaaaaaa'',
       Sleep 2,
       ExecuteTrade ''0xaaaaaaaaaaaaaaaaaaaaaaaaaaaaaaaaaaaaaaaa'',
       LogAttemptFailed 3 3 ''0xaaaaaaaaaaaaaaaaaaaaaaaaaaaaaaaaaaaaaaaa'',
       LogAllFailed ''0xaaaaaaaaaaaaaaaaaaaaaaaaaaaaaaaaaaaaaaaa'',
       ListenerResume])
   \<and> recent_executions
        (bookkeeping default_pipeline_config initial_pipeline
           \<lparr>timestamp = 10000000, address = ''0xaaaaaaaaaaaaaaaaaaaaaaaaaaaaaaaaaaaaaaaa''\<rparr> 19000000)
        ''0xaaaaaaaaaaaaaaaaaaaaaaaaaaaaaaaaaaaaaaaa''
     = Some 19000000"
proof -
  let ?a = "''0xaaaaaaaaaaaaaaaaaaaaaaaaaaaaaaaaaaaaaaaa''"
  let ?r = "\<lparr>timestamp = 10000000, address = ?a\<rparr>"
  let ?env = "\<lparr>guard_max_age = 20, fromisoformat_of = utc_fromisoformat,
      repo_file = ''1970-01-01T00:00:10+00:00|0xaaaaaaaaaaaaaaaaaaaaaaaaaaaaaaaaaaaaaaaa'' @ [CHR 0x0A],
      trader_of = (\<lambda>k. RaisesException),
      now_guard = 12000000, now_skip = 12000000, now_done = 19000000\<rparr>"
  have l: "read_latest utc_fromisoformat
      (''1970-01-01T00:00:10+00:00|0xaaaaaaaaaaaaaaaaaaaaaaaaaaaaaaaaaaaaaaaa'' @ [CHR 0x0A]) = Some ?r"
    by code_simp
  have h1: "\<forall>k. 1 \<le> k \<and> k \<le> retry_attempts default_pipeline_config
      \<longrightarrow> trader_of ?env k = RaisesException"
    by simp
  have h2: "is_recent (guard_max_age ?env) (Some ?r) None (now_guard ?env)"
    by (simp add: is_recent_def timedelta_seconds_def)
  have h3: "read_latest (fromisoformat_of ?env) (repo_file ?env) = Some ?r"
    using l by simp
  have h4: "\<not> should_skip default_pipeline_config initial_pipeline ?r (now_skip ?env)"
    by (simp add: should_skip_def initial_pipeline_def)
  have u: "[1..retry_attempts default_pipeline_config] = [1, 2, 3]"
    by (simp add: default_pipeline_config_def upto.simps)
  have 1: "process_record default_pipeline_config ?env initial_pipeline ?r
      = (Completed, bookkeeping default_pipeline_config initial_pipeline ?r 19000000,
         [ListenerPause, ExecuteTrade ?a, LogAttemptFailed 1 3 ?a, Sleep 2,
          ExecuteTrade ?a, LogAttemptFailed 2 3 ?a, Sleep 2,
          ExecuteTrade ?a, LogAttemptFailed 3 3 ?a, LogAllFailed ?a, ListenerResume])"
    using exhausted_retries_still_recorded [OF h1 h2 h3 h4, THEN conjunct1]
    unfolding u by (simp add: failed_attempt_def default_pipeline_config_def)
  have 2: "recent_executions (bookkeeping default_pipeline_config initial_pipeline ?r 19000000) ?a
      = Some 19000000"
    by (simp add: bookkeeping_def prune_recent_executions_def default_pipeline_config_def
        total_seconds_def)
  from 1 2 show ?thesis by (intro conjI)
qed

text \<open>
  Claim C4. A record whose timestamp is older than \<open>max_age\<close> at the moment of evaluation
  is never passed to the Trade Action: \<^verbatim>\<open>_process_record\<close> logs that it discards the
  record and returns, the pipeline unchanged, before any execution path.
\<close>

theorem stale_record_never_executed:
  assumes "now_guard env - timestamp record > timedelta_seconds (guard_max_age env)"
  shows "process_record config env st record = (Completed, st, [LogDiscardStale record])
       \<and> trade_calls (snd (snd (process_record config env st record))) = []"
  using assms by (simp add: process_record_def is_recent_def)

theorem stale_record_never_executed_witness:
  "process_record default_pipeline_config
     \<lparr>guard_max_age = 20, fromisoformat_of = utc_fromisoformat,
      repo_file = ''1970-01-01T00:00:10+00:00|0xaaaaaaaaaaaaaaaaaaaaaaaaaaaaaaaaaaaaaaaa'' @ [CHR 0x0A],
      trader_of = (\<lambda>k. Returns),
      now_guard = 31000000, now_skip = 31000000, now_done = 32000000\<rparr>
     initial_pipeline
     \<lparr>timestamp = 10000000, address = ''0xaaaaaaaaaaaaaaaaaaaaaaaaaaaaaaaaaaaaaaaa''\<rparr>
   = (Completed, initial_pipeline,
      [LogDiscardStale \<lparr>timestamp = 10000000, address = ''0xaaaaaaaaaaaaaaaaaaaaaaaaaaaaaaaaaaaaaaaa''\<rparr>])
   \<and> (31000000 :: int) - 10000000 > timedelta_seconds 20"
proof -
  let ?r = "\<lparr>timestamp = 10000000, address = ''0xaaaaaaaaaaaaaaaaaaaaaaaaaaaaaaaaaaaaaaaa''\<rparr>"
  let ?env = "\<lparr>guard_max_age = 20, fromisoformat_of = utc_fromisoformat,
      repo_file = ''1970-01-01T00:00:10+00:00|0xaaaaaaaaaaaaaaaaaaaaaaaaaaaaaaaaaaaaaaaa'' @ [CHR 0x0A],
      trader_of = (\<lambda>k. Returns),
      now_guard = 31000000, now_skip = 31000000, now_done = 32000000\<rparr>"
  have t: "(31000000 :: int) - 10000000 > timedelta_seconds 20"
    by (simp add: timedelta_seconds_def)
  then have h: "now_guard ?env - timestamp ?r > timedelta_seconds (guard_max_age ?env)"
    by simp
  from stale_record_never_executed [OF h, THEN conjunct1] t show ?thesis
    by (intro conjI)
qed

text \<open>
  Claim C10. Pruning leaves the skip decision as it was: for every state of the tracker,
  every record and every reference time \<open>now\<close>, \<^verbatim>\<open>_should_skip\<close> at \<open>now\<close> gives the same
  answer before and after \<^verbatim>\<open>_prune_recent_executions(now)\<close>. Prune keeps the entries of the
  addresses for which \<^verbatim>\<open>_should_skip\<close> answers true and removes every other entry.
\<close>

theorem prune_preserves_should_skip:
  "should_skip config (prune_recent_executions config st (Some now) clock) record now
     = should_skip config st record now
   \<and> recent_executions (prune_recent_executions config st (Some now) clock) addr
     = (if should_skip config st \<lparr>timestamp = t, address = addr\<rparr> now
        then recent_executions st addr else None)"
  by (auto simp: should_skip_def prune_recent_executions_def Let_def split: option.splits)

theorem prune_preserves_should_skip_witness:
  "should_skip default_pipeline_config
     (prune_recent_executions default_pipeline_config
        (initial_pipeline\<lparr>recent_executions := [''0xaa'' \<mapsto> 10000000, ''0xbb'' \<mapsto> 11000000]\<rparr>)
        (Some 12000000) 0)
     \<lparr>timestamp = 0, address = ''0xbb''\<rparr> 12000000
   = True
   \<and> should_skip default_pipeline_config
     (prune_recent_executions default_pipeline_config
        (initial_pipeline\<lparr>recent_executions := [''0xaa'' \<mapsto> 10000000, ''0xbb'' \<mapsto> 11000000]\<rparr>)
        (Some 12000000) 0)
     \<lparr>timestamp = 0, address = ''0xaa''\<rparr> 12000000
   = False
   \<and> recent_executions
     (prune_recent_executions default_pipeline_config
        (initial_pipeline\<lparr>recent_executions := [''0xaa'' \<mapsto> 10000000, ''0xbb'' \<mapsto> 11000000]\<rparr>)
        (Some 12000000) 0) ''0xaa''
   = None"
proof -
  let ?st = "initial_pipeline\<lparr>recent_executions := [''0xaa'' \<mapsto> 10000000, ''0xbb'' \<mapsto> 11000000]\<rparr>"
  have b: "should_skip default_pipeline_config ?st \<lparr>timestamp = 0, address = ''0xbb''\<rparr> 12000000"
    by (simp add: should_skip_def default_pipeline_config_def total_seconds_def)
  have a: "\<not> should_skip default_pipeline_config ?st \<lparr>timestamp = 0, address = ''0xaa''\<rparr> 12000000"
    by (simp add: should_skip_def default_pipeline_config_def total_seconds_def)
  note p = prune_preserves_should_skip [of default_pipeline_config ?st 12000000 0]
  from p [of "\<lparr>timestamp = 0, address = ''0xbb''\<rparr>", THEN conjunct1] b
  have 1: "should_skip default_pipeline_config
     (prune_recent_executions default_pipeline_config ?st (Some 12000000) 0)
     \<lparr>timestamp = 0, address = ''0xbb''\<rparr> 12000000 = True"
    by simp
  from p [of "\<lparr>timestamp = 0, address = ''0xaa''\<rparr>", THEN conjunct1] a
  have 2: "should_skip default_pipeline_config
     (prune_recent_executions default_pipeline_config ?st (Some 12000000) 0)
     \<lparr>timestamp = 0, address = ''0xaa''\<rparr> 12000000 = False"
    by simp
  from p [of _ "''0xaa''" 0, THEN conjunct2] a
  have 3: "recent_executions
     (prune_recent_executions default_pipeline_config ?st (Some 12000000) 0) ''0xaa'' = None"
    by simp
  from 1 2 3 show ?thesis by (intro conjI)
qed


end
